theory Spec2Isabelle
  imports Main
begin

section \<open>SelectionOrderedSet: the data model\<close>

text \<open>
  The class \<open>SelectionOrderedSet\<close> (src/src/dock.js, lines 606 to 910) is an ordered
  collection with one selected index and an event emitter. Its methods mutate the object
  and call listeners synchronously, so the embedding passes the object explicitly as a
  record, returns the updated record, and keeps every observable effect (an event handed
  to the emitter, a \<open>console.warn\<close>, a call of an entry's own \<open>destroy\<close>) in a trace.
  Indices are JavaScript numbers used as integers, modelled as \<open>int\<close>. The value
  \<open>undefined\<close> read from an array slot that does not exist is \<open>None\<close>; entries
  themselves are values other than \<open>undefined\<close>, compared by \<open>===\<close>.

  The record \<open>sos\<close> holds the fields of the object. \<open>subscriptionsDisposed\<close> and
  \<open>emitterDisposed\<close> record that \<open>this.subscriptions.dispose()\<close> and
  \<open>this.emitter.dispose()\<close> have been called; \<open>log\<close> is the trace.
\<close>

datatype error = AssertionError | Error string

datatype 'a event =
    DidAddEntry 'a int
  | DidRemoveEntry "'a option" int
  | DidChangeEntries "'a list"
  | DidChangeSelectedEntry "'a option"
  | DidDestroy

datatype 'a effect = Emitted "'a event" | Warned | EntryDestroyCalled 'a

record 'a sos =
  entries :: "'a list"
  selectedIndex :: int
  alive :: "bool option"
  transactionDepth :: int
  currentTransactionChangedEntries :: bool
  emitting :: bool
  subscriptionsDisposed :: bool
  emitterDisposed :: bool
  log :: "'a effect list"

text \<open>
  A call returns, throws (leaving the object as it was at the \<open>throw\<close>, since no method
  has a \<open>try\<close>/\<open>finally\<close>), or exhausts the bound on nested listener dispatch.
\<close>

datatype 'a result = Returned "'a sos" | Threw error "'a sos" | OutOfFuel

definition andThen :: "'a result \<Rightarrow> ('a sos \<Rightarrow> 'a result) \<Rightarrow> 'a result" where
  "andThen r f = (case r of Returned s \<Rightarrow> f s | Threw e s \<Rightarrow> Threw e s | OutOfFuel \<Rightarrow> OutOfFuel)"

subsection \<open>JavaScript array and number primitives\<close>

text \<open>\<open>xs[i]\<close>: \<open>undefined\<close> outside \<open>0 .. length - 1\<close>, also for a negative \<open>i\<close>.\<close>

definition js_index :: "'a list \<Rightarrow> int \<Rightarrow> 'a option" where
  "js_index xs i = (if 0 \<le> i \<and> i < int (length xs) then Some (xs ! nat i) else None)"

text \<open>
  \<open>Array.prototype.splice\<close> clamps its start: a negative start counts from the end and
  stops at 0, a start beyond the length becomes the length. \<open>splice(i, 0, e)\<close> inserts
  \<open>e\<close> there; \<open>splice(i, 1)\<close> deletes the element there, if there is one.
\<close>

definition splice_start :: "'a list \<Rightarrow> int \<Rightarrow> nat" where
  "splice_start xs i =
     (if i < 0 then nat (max (int (length xs) + i) 0) else nat (min i (int (length xs))))"

definition splice_insert :: "'a list \<Rightarrow> int \<Rightarrow> 'a \<Rightarrow> 'a list" where
  "splice_insert xs i e = (let k = splice_start xs i in take k xs @ [e] @ drop k xs)"

definition splice_delete1 :: "'a list \<Rightarrow> int \<Rightarrow> 'a list" where
  "splice_delete1 xs i = (let k = splice_start xs i in take k xs @ drop (Suc k) xs)"

text \<open>The remainder operator \<open>%\<close> truncates: the result has the sign of the dividend.\<close>

definition js_rem :: "int \<Rightarrow> int \<Rightarrow> int" where
  "js_rem a b = sgn a * (\<bar>a\<bar> mod \<bar>b\<bar>)"

text \<open>A value is truthy unless it is \<open>undefined\<close> or \<open>false\<close>.\<close>

definition truthy :: "bool option \<Rightarrow> bool" where
  "truthy v = (case v of None \<Rightarrow> False | Some b \<Rightarrow> b)"

section \<open>The constructor and the queries\<close>

record 'a options =
  opt_entries :: "'a list option"
  opt_selectedIndex :: "int option"

text \<open>
  The constructor assigns \<open>currentTransactionChangedEntries\<close>, \<open>transactionDepth\<close>,
  \<open>entries\<close>, \<open>selectedIndex\<close>, \<open>emitter\<close> and \<open>subscriptions\<close>. It assigns neither
  \<open>alive\<close> nor \<open>emitting\<close>: both are \<open>undefined\<close> on a new object (\<open>emitting\<close> is only
  ever tested for truthiness, so it is a \<open>bool\<close> here). The subscriptions it creates
  through \<open>usingEachEntry\<close> only manage disposables and emit nothing.
\<close>

definition constructor :: "'a options \<Rightarrow> error + 'a sos" where
  "constructor options =
     (let es = (case opt_entries options of None \<Rightarrow> [] | Some xs \<Rightarrow> xs);
          mk = (\<lambda>i. \<lparr> entries = es, selectedIndex = i, alive = None, transactionDepth = 0,
                      currentTransactionChangedEntries = False, emitting = False,
                      subscriptionsDisposed = False, emitterDisposed = False, log = [] \<rparr>)
      in case opt_selectedIndex options of
           None \<Rightarrow> Inr (mk (if length es = 0 then - 1 else 0))
         | Some i \<Rightarrow>
             if i = - 1 \<and> length es \<noteq> 0 then Inl (Error ''Initial selection required'')
             else if i \<ge> int (length es) then Inl (Error ''Invalid selected entry index'')
             else Inr (mk i))"

definition isAlive :: "'a sos \<Rightarrow> bool option" where
  "isAlive s = alive s"

definition isDestroyed :: "'a sos \<Rightarrow> bool" where
  "isDestroyed s = (\<not> truthy (isAlive s))"

definition getSelectedIndex :: "'a sos \<Rightarrow> int" where
  "getSelectedIndex s = selectedIndex s"

definition getSelectedEntry :: "'a sos \<Rightarrow> 'a option" where
  "getSelectedEntry s = js_index (entries s) (selectedIndex s)"

definition getEntries :: "'a sos \<Rightarrow> 'a list" where
  "getEntries s = entries s"

definition getSize :: "'a sos \<Rightarrow> int" where
  "getSize s = int (length (entries s))"

text \<open>The method \<open>includes\<close>, under a name that is not a keyword of the prover.\<close>

definition includesEntry :: "'a sos \<Rightarrow> 'a \<Rightarrow> bool" where
  "includesEntry s entry = (entry \<in> set (entries s))"

definition indexOf :: "'a sos \<Rightarrow> 'a \<Rightarrow> int" where
  "indexOf s entry =
     (if entry \<in> set (entries s) then int (length (takeWhile (\<lambda>x. x \<noteq> entry) (entries s)))
      else - 1)"

section \<open>Emitting and transactions\<close>

text \<open>
  \<open>this.emitter.emit\<close> belongs to the event-kit library; every method below takes it as the
  parameter \<open>D\<close>, which records the event and runs the listeners on the object.
\<close>

type_synonym 'a dispatch = "'a event \<Rightarrow> 'a sos \<Rightarrow> 'a result"

definition emit :: "'a dispatch \<Rightarrow> 'a event \<Rightarrow> 'a sos \<Rightarrow> 'a result" where
  "emit D ev s =
     andThen (D ev (s\<lparr>emitting := True\<rparr>)) (\<lambda>s'. Returned (s'\<lparr>emitting := False\<rparr>))"

definition transact :: "'a dispatch \<Rightarrow> ('a sos \<Rightarrow> 'a result) \<Rightarrow> 'a sos \<Rightarrow> 'a result" where
  "transact D fn s =
     (let s0 = (if emitting s then s\<lparr>log := log s @ [Warned]\<rparr> else s);
          prevSelectedEntry = getSelectedEntry s0;
          s1 = s0\<lparr>transactionDepth := transactionDepth s0 + 1\<rparr>
      in andThen (fn s1) (\<lambda>s2.
           let s3 = s2\<lparr>transactionDepth := transactionDepth s2 - 1\<rparr>
           in if transactionDepth s3 \<noteq> 0 then Returned s3
              else andThen
                (if currentTransactionChangedEntries s3
                 then emit D (DidChangeEntries (getEntries s3))
                        (s3\<lparr>currentTransactionChangedEntries := False\<rparr>)
                 else Returned s3)
                (\<lambda>s4. let selectedEntry = getSelectedEntry s4
                      in if selectedEntry \<noteq> prevSelectedEntry
                         then emit D (DidChangeSelectedEntry selectedEntry) s4
                         else Returned s4)))"

definition didAddEntry :: "'a dispatch \<Rightarrow> 'a \<Rightarrow> int \<Rightarrow> 'a sos \<Rightarrow> 'a result" where
  "didAddEntry D entry index s =
     emit D (DidAddEntry entry index) (s\<lparr>currentTransactionChangedEntries := True\<rparr>)"

definition didRemoveEntry :: "'a dispatch \<Rightarrow> 'a option \<Rightarrow> int \<Rightarrow> 'a sos \<Rightarrow> 'a result" where
  "didRemoveEntry D entry index s =
     emit D (DidRemoveEntry entry index) (s\<lparr>currentTransactionChangedEntries := True\<rparr>)"

definition didDestroy :: "'a dispatch \<Rightarrow> 'a sos \<Rightarrow> 'a result" where
  "didDestroy D s = emit D DidDestroy s"

section \<open>Mutations\<close>

text \<open>
  Each mutator passes an arrow function to \<open>transact\<close>; the arrow function is the
  definition whose name ends in \<open>_fn\<close>.
\<close>

definition addAt_fn :: "'a dispatch \<Rightarrow> 'a \<Rightarrow> int \<Rightarrow> 'a sos \<Rightarrow> 'a result" where
  "addAt_fn D entry index s =
     (if includesEntry s entry then Threw AssertionError s
      else if \<not> index \<le> getSize s then Threw AssertionError s
      else let s1 = s\<lparr>entries := splice_insert (entries s) index entry\<rparr>;
               s2 = (if index \<le> selectedIndex s1
                     then s1\<lparr>selectedIndex := selectedIndex s1 + 1\<rparr> else s1)
           in didAddEntry D entry index s2)"

definition addAt :: "'a dispatch \<Rightarrow> 'a \<Rightarrow> int \<Rightarrow> 'a sos \<Rightarrow> 'a result" where
  "addAt D entry index = transact D (addAt_fn D entry index)"

definition add :: "'a dispatch \<Rightarrow> 'a \<Rightarrow> 'a sos \<Rightarrow> 'a result" where
  "add D entry s = addAt D entry (getSize s) s"

definition removeAt_fn :: "'a dispatch \<Rightarrow> int \<Rightarrow> 'a sos \<Rightarrow> 'a result" where
  "removeAt_fn D index s =
     (let entry = js_index (entries s) index;
          s1 = s\<lparr>entries := splice_delete1 (entries s) index\<rparr>;
          size = getSize s1;
          s2 = (if size = 0 then s1\<lparr>selectedIndex := - 1\<rparr>
                else if index < selectedIndex s1
                then s1\<lparr>selectedIndex := max 0 (selectedIndex s1 - 1)\<rparr>
                else s1\<lparr>selectedIndex := min (selectedIndex s1) (size - 1)\<rparr>)
      in didRemoveEntry D entry index s2)"

definition removeAt :: "'a dispatch \<Rightarrow> int \<Rightarrow> 'a sos \<Rightarrow> 'a result" where
  "removeAt D index = transact D (removeAt_fn D index)"

definition remove :: "'a dispatch \<Rightarrow> 'a \<Rightarrow> 'a sos \<Rightarrow> 'a result" where
  "remove D entry s =
     (let index = indexOf s entry in if index = - 1 then Returned s else removeAt D index s)"

definition selectAt_fn :: "int \<Rightarrow> 'a sos \<Rightarrow> 'a result" where
  "selectAt_fn index s =
     (if index = selectedIndex s then Returned s
      else if index < 0 \<or> index \<ge> getSize s then Threw (Error ''Invalid selection index'') s
      else Returned (s\<lparr>selectedIndex := index\<rparr>))"

definition selectAt :: "'a dispatch \<Rightarrow> int \<Rightarrow> 'a sos \<Rightarrow> 'a result" where
  "selectAt D index = transact D (selectAt_fn index)"

definition selectNext :: "'a dispatch \<Rightarrow> 'a sos \<Rightarrow> 'a result" where
  "selectNext D s =
     (let size = getSize s
      in if size = 0 then Returned s else selectAt D (js_rem (selectedIndex s + 1) size) s)"

definition selectPrevious :: "'a dispatch \<Rightarrow> 'a sos \<Rightarrow> 'a result" where
  "selectPrevious D s =
     (let size = getSize s
      in if size = 0 then Returned s
         else selectAt D (js_rem (selectedIndex s - 1 + size) size) s)"

definition select :: "'a dispatch \<Rightarrow> 'a \<Rightarrow> 'a sos \<Rightarrow> 'a result" where
  "select D entry s =
     (let index = indexOf s entry
      in if index = - 1 then Threw (Error ''Entry not in set'') s else selectAt D index s)"

section \<open>Destruction\<close>

text \<open>
  \<open>destroyEntry\<close> calls the entry's own \<open>destroy\<close> when the entry has one
  (\<open>typeof entry.destroy === 'function'\<close>, the parameter \<open>hasDestroy\<close>). The call is
  code of the entry, recorded in the trace. \<open>destroy\<close> disposes the set's subscriptions to
  its entries first, so the entry's destruction does not call back into the set.
\<close>

definition destroyEntry :: "('a \<Rightarrow> bool) \<Rightarrow> 'a \<Rightarrow> 'a sos \<Rightarrow> 'a result" where
  "destroyEntry hasDestroy entry s =
     Returned (if hasDestroy entry then s\<lparr>log := log s @ [EntryDestroyCalled entry]\<rparr> else s)"

primrec forEach :: "('a \<Rightarrow> 'a sos \<Rightarrow> 'a result) \<Rightarrow> 'a list \<Rightarrow> 'a sos \<Rightarrow> 'a result" where
  "forEach f [] s = Returned s"
| "forEach f (x # xs) s = andThen (f x s) (forEach f xs)"

definition destroyEntries_fn :: "'a dispatch \<Rightarrow> ('a \<Rightarrow> bool) \<Rightarrow> 'a sos \<Rightarrow> 'a result" where
  "destroyEntries_fn D hasDestroy s =
     forEach (\<lambda>entry s'.
         if \<not> includesEntry s' entry then Threw (Error ''Entry not in set'') s'
         else andThen (destroyEntry hasDestroy entry s') (remove D entry))
       (getEntries s) s"

definition destroyEntries :: "'a dispatch \<Rightarrow> ('a \<Rightarrow> bool) \<Rightarrow> 'a sos \<Rightarrow> 'a result" where
  "destroyEntries D hasDestroy = transact D (destroyEntries_fn D hasDestroy)"

definition destroy :: "'a dispatch \<Rightarrow> ('a \<Rightarrow> bool) \<Rightarrow> 'a sos \<Rightarrow> 'a result" where
  "destroy D hasDestroy s =
     andThen (destroyEntries D hasDestroy (s\<lparr>subscriptionsDisposed := True\<rparr>)) (\<lambda>s1.
       andThen (didDestroy D (s1\<lparr>alive := Some False\<rparr>)) (\<lambda>s2.
         Returned (s2\<lparr>emitterDisposed := True\<rparr>)))"

section \<open>Callers and listeners\<close>

text \<open>
  What a caller or a listener does to the set is a script of method calls; \<open>Transact\<close> is
  a call of \<open>transact\<close> whose function runs the nested script.
\<close>

datatype 'a op =
    Add 'a
  | AddAt 'a int
  | Remove 'a
  | RemoveAt int
  | SelectNext
  | SelectPrevious
  | Select 'a
  | SelectAt int
  | Transact "'a op list"

fun run_op :: "'a dispatch \<Rightarrow> 'a op \<Rightarrow> 'a sos \<Rightarrow> 'a result"
  and run_ops :: "'a dispatch \<Rightarrow> 'a op list \<Rightarrow> 'a sos \<Rightarrow> 'a result" where
  "run_op D (Add e) s = add D e s"
| "run_op D (AddAt e i) s = addAt D e i s"
| "run_op D (Remove e) s = remove D e s"
| "run_op D (RemoveAt i) s = removeAt D i s"
| "run_op D SelectNext s = selectNext D s"
| "run_op D SelectPrevious s = selectPrevious D s"
| "run_op D (Select e) s = select D e s"
| "run_op D (SelectAt i) s = selectAt D i s"
| "run_op D (Transact ops) s = transact D (\<lambda>s'. run_ops D ops s') s"
| "run_ops D [] s = Returned s"
| "run_ops D (x # xs) s =
     (case run_op D x s of
        Returned s' \<Rightarrow> run_ops D xs s'
      | Threw e s' \<Rightarrow> Threw e s'
      | OutOfFuel \<Rightarrow> OutOfFuel)"

text \<open>
  A listener sees the event and the object and answers with the calls it makes on the
  set (none, for a listener that only observes). The emitter records the event and calls
  the listeners in subscription order; a disposed emitter does nothing. The number bounds
  how deep listeners may trigger further dispatches: with none left the run is cut off.
\<close>

type_synonym 'a listener = "'a sos \<Rightarrow> 'a event \<Rightarrow> 'a op list"

primrec callListeners ::
  "('a op list \<Rightarrow> 'a sos \<Rightarrow> 'a result) \<Rightarrow> 'a listener list \<Rightarrow> 'a event \<Rightarrow> 'a sos \<Rightarrow> 'a result" where
  "callListeners run [] ev s = Returned s"
| "callListeners run (l # ls) ev s = andThen (run (l s ev) s) (callListeners run ls ev)"

primrec emitter_emit :: "nat \<Rightarrow> 'a listener list \<Rightarrow> 'a dispatch" where
  "emitter_emit 0 ls = (\<lambda>ev s. OutOfFuel)"
| "emitter_emit (Suc n) ls =
     (\<lambda>ev s. if emitterDisposed s then Returned s
             else callListeners (run_ops (emitter_emit n ls)) ls ev
                    (s\<lparr>log := log s @ [Emitted ev]\<rparr>))"

definition observing :: "'a listener list \<Rightarrow> bool" where
  "observing ls = (\<forall>l \<in> set ls. \<forall>s ev. l s ev = [])"

section \<open>Vocabulary of the properties\<close>

text \<open>
  \<open>enter s\<close> is the object as \<open>transact\<close> hands it to its function: warned about if a
  dispatch is running, one transaction deeper. \<open>is_batched\<close> holds of the two deferred
  events, \<open>did-change-entries\<close> and \<open>did-change-selected-entry\<close>, as opposed to the
  events emitted at the mutation itself.
\<close>

definition enter :: "'a sos \<Rightarrow> 'a sos" where
  "enter s =
     (if emitting s then s\<lparr>log := log s @ [Warned]\<rparr> else s)
       \<lparr>transactionDepth := transactionDepth s + 1\<rparr>"

fun is_batched :: "'a effect \<Rightarrow> bool" where
  "is_batched (Emitted (DidChangeEntries xs)) = True"
| "is_batched (Emitted (DidChangeSelectedEntry e)) = True"
| "is_batched x = False"

fun is_removal :: "'a effect \<Rightarrow> bool" where
  "is_removal (Emitted (DidRemoveEntry e i)) = True"
| "is_removal x = False"

text \<open>
  \<open>unbatched s s'\<close>: the trace of \<open>s'\<close> extends that of \<open>s\<close> by effects none of which
  is a deferred event. \<open>nested_ok s r\<close>: what a call made inside a transaction does
  when listeners only observe. It returns at the depth it started from, or throws, and
  emits no deferred event either way.
\<close>

definition unbatched :: "'a sos \<Rightarrow> 'a sos \<Rightarrow> bool" where
  "unbatched s s' = (\<exists>bl. log s' = log s @ bl \<and> list_all (\<lambda>x. \<not> is_batched x) bl)"


text \<open>
  What destroying one entry adds to the trace: the call of the entry's own \<open>destroy\<close>,
  when it has one, and then the \<open>did-remove-entry\<close> event, at index 0 because the
  entries are removed front to back.
\<close>

definition destroy_trace :: "('a \<Rightarrow> bool) \<Rightarrow> 'a \<Rightarrow> 'a effect list" where
  "destroy_trace hasDestroy e =
     (if hasDestroy e then [EntryDestroyCalled e] else []) @ [Emitted (DidRemoveEntry (Some e) 0)]"

section \<open>Concrete sets\<close>

text \<open>
  \<open>new SelectionOrderedSet()\<close>, \<open>new SelectionOrderedSet({entries: ['a', 'b', 'c'],
  selectedIndex: i})\<close>, and an emitter on which nobody listens.
\<close>

definition noOptions :: "string options" where
  "noOptions = \<lparr> opt_entries = None, opt_selectedIndex = None \<rparr>"

definition abcOptions :: "int \<Rightarrow> string options" where
  "abcOptions i = \<lparr> opt_entries = Some [''a'', ''b'', ''c''], opt_selectedIndex = Some i \<rparr>"

definition newSet :: "string sos" where
  "newSet = \<lparr> entries = [], selectedIndex = - 1, alive = None, transactionDepth = 0,
              currentTransactionChangedEntries = False, emitting = False,
              subscriptionsDisposed = False, emitterDisposed = False, log = [] \<rparr>"

definition abcSet :: "int \<Rightarrow> string sos" where
  "abcSet i = newSet\<lparr> entries := [''a'', ''b'', ''c''], selectedIndex := i \<rparr>"

definition quiet :: "string dispatch" where
  "quiet = emitter_emit 1 []"

text \<open>
  A listener of \<open>did-add-entry\<close> that, when \<open>'a'\<close> is added at index 0, adds \<open>'b'\<close>
  and then \<open>'c'\<close> to the set.
\<close>

definition addsTwo :: "string listener" where
  "addsTwo s ev = (if ev = DidAddEntry ''a'' 0 then [Add ''b'', Add ''c''] else [])"


text \<open>A listener that only looks at the event, and entries without a \<open>destroy\<close> method.\<close>

definition onlooker :: "string listener" where
  "onlooker s ev = []"

definition plainEntry :: "string \<Rightarrow> bool" where
  "plainEntry e = False"

definition destroysB :: "string \<Rightarrow> bool" where
  "destroysB e = (e = ''b'')"

section \<open>Dispatch to listeners that only observe\<close>

text \<open>
  When no listener calls back into the set, a dispatch only records the event, whatever
  the bound on nested dispatches.
\<close>

lemma callListeners_observing:
  "observing ls \<Longrightarrow> callListeners (run_ops D) ls ev s = Returned s"
  by (induction ls arbitrary: s) (auto simp: andThen_def observing_def)

lemma emitter_emit_observing:
  "observing ls \<Longrightarrow> emitter_emit (Suc n) ls ev s =
     (if emitterDisposed s then Returned s else Returned (s\<lparr>log := log s @ [Emitted ev]\<rparr>))"
  by (simp add: callListeners_observing)

lemma emit_observing:
  "observing ls \<Longrightarrow> \<not> emitterDisposed s \<Longrightarrow>
   emit (emitter_emit (Suc n) ls) ev s = Returned (s\<lparr>emitting := False, log := log s @ [Emitted ev]\<rparr>)"
  unfolding emit_def by (simp add: emitter_emit_observing andThen_def del: emitter_emit.simps)

lemma getSelectedEntry_enter [simp]: "getSelectedEntry (enter s) = getSelectedEntry s"
  by (simp add: enter_def getSelectedEntry_def)

lemma transact_enter:
  "transact D fn s =
     andThen (fn (enter s)) (\<lambda>s2.
       if transactionDepth s2 \<noteq> 1 then Returned (s2\<lparr>transactionDepth := transactionDepth s2 - 1\<rparr>)
       else andThen
         (if currentTransactionChangedEntries s2
          then emit D (DidChangeEntries (entries s2))
                 (s2\<lparr>transactionDepth := 0, currentTransactionChangedEntries := False\<rparr>)
          else Returned (s2\<lparr>transactionDepth := 0\<rparr>))
         (\<lambda>s4. if getSelectedEntry s4 \<noteq> getSelectedEntry s
               then emit D (DidChangeSelectedEntry (getSelectedEntry s4)) s4
               else Returned s4))"
proof -
  have "\<And>s2::'a sos. transactionDepth s2 = 1 \<Longrightarrow>
      s2\<lparr>transactionDepth := transactionDepth s2 - 1\<rparr> = s2\<lparr>transactionDepth := 0\<rparr>"
    by simp
  then show ?thesis
    by (cases "emitting s")
      (auto simp add: transact_def enter_def Let_def getSelectedEntry_def getEntries_def andThen_def
        split: result.splits)
qed

lemma transact_Threw:
  "fn (enter s) = Threw e s2 \<Longrightarrow> transact D fn s = Threw e s2"
  by (simp add: transact_enter andThen_def)

lemma transact_OutOfFuel:
  "fn (enter s) = OutOfFuel \<Longrightarrow> transact D fn s = OutOfFuel"
  by (simp add: transact_enter andThen_def)

lemma transact_nested:
  "fn (enter s) = Returned s2 \<Longrightarrow> transactionDepth s2 \<noteq> 1 \<Longrightarrow>
   transact D fn s = Returned (s2\<lparr>transactionDepth := transactionDepth s2 - 1\<rparr>)"
  by (simp add: transact_enter andThen_def)

lemma transact_top:
  assumes "observing ls" and "fn (enter s) = Returned s2" and "transactionDepth s2 = 1"
    and "\<not> emitterDisposed s2"
  shows "transact (emitter_emit (Suc n) ls) fn s =
     Returned (s2\<lparr> transactionDepth := 0, currentTransactionChangedEntries := False,
        emitting := (emitting s2 \<and> \<not> currentTransactionChangedEntries s2
                      \<and> getSelectedEntry s2 = getSelectedEntry s),
        log := log s2
          @ (if currentTransactionChangedEntries s2 then [Emitted (DidChangeEntries (entries s2))] else [])
          @ (if getSelectedEntry s2 \<noteq> getSelectedEntry s
             then [Emitted (DidChangeSelectedEntry (getSelectedEntry s2))] else []) \<rparr>)"
proof (cases "currentTransactionChangedEntries s2")
  case True
  show ?thesis
  proof (cases "getSelectedEntry s2 = getSelectedEntry s")
    case same: True
    then show ?thesis using True assms
      by (simp add: transact_enter andThen_def emit_observing getSelectedEntry_def del: emitter_emit.simps)
  next
    case diff: False
    then show ?thesis using True assms
      by (simp add: transact_enter andThen_def emit_observing getSelectedEntry_def del: emitter_emit.simps)
  qed
next
  case False
  show ?thesis
  proof (cases "getSelectedEntry s2 = getSelectedEntry s")
    case same: True
    then show ?thesis using False assms
      by (simp add: transact_enter andThen_def emit_observing getSelectedEntry_def del: emitter_emit.simps)
  next
    case diff: False
    then show ?thesis using False assms
      by (simp add: transact_enter andThen_def emit_observing getSelectedEntry_def del: emitter_emit.simps)
  qed
qed


lemma splice_delete1_in_range:
  "0 \<le> i \<Longrightarrow> i < int (length xs) \<Longrightarrow>
   splice_delete1 xs i = take (nat i) xs @ drop (Suc (nat i)) xs"
  by (simp add: splice_delete1_def splice_start_def Let_def)

lemma length_splice_delete1_in_range:
  "0 \<le> i \<Longrightarrow> i < int (length xs) \<Longrightarrow> int (length (splice_delete1 xs i)) = int (length xs) - 1"
  by (simp add: splice_delete1_in_range)

lemma removeAt_fn_in_range:
  assumes "observing ls" and "\<not> emitterDisposed s" and "0 \<le> index" and "index < getSize s"
  shows "removeAt_fn (emitter_emit (Suc n) ls) index s =
     Returned (s\<lparr> entries := take (nat index) (entries s) @ drop (Suc (nat index)) (entries s),
        selectedIndex :=
          (if getSize s - 1 = 0 then - 1
           else if index < selectedIndex s then max 0 (selectedIndex s - 1)
           else min (selectedIndex s) (getSize s - 1 - 1)),
        currentTransactionChangedEntries := True,
        emitting := False,
        log := log s @ [Emitted (DidRemoveEntry (Some (entries s ! nat index)) index)] \<rparr>)"
proof -
  have i: "js_index (entries s) index = Some (entries s ! nat index)"
    using assms(3,4) by (simp add: js_index_def getSize_def)
  have d: "splice_delete1 (entries s) index = take (nat index) (entries s) @ drop (Suc (nat index)) (entries s)"
    using assms(3,4) by (simp add: splice_delete1_in_range getSize_def)
  have l: "int (length (take (nat index) (entries s) @ drop (Suc (nat index)) (entries s))) = getSize s - 1"
    using length_splice_delete1_in_range [of index "entries s"] assms(3,4) by (simp add: d getSize_def)
  show ?thesis
    unfolding removeAt_fn_def didRemoveEntry_def Let_def i d
    using assms(1,2) l
    by (simp add: emit_observing getSize_def del: emitter_emit.simps)
qed


lemma enter_fields [simp]:
  "entries (enter s) = entries s" "selectedIndex (enter s) = selectedIndex s"
  "transactionDepth (enter s) = transactionDepth s + 1"
  "emitterDisposed (enter s) = emitterDisposed s" "getSize (enter s) = getSize s"
  "currentTransactionChangedEntries (enter s) = currentTransactionChangedEntries s"
  "alive (enter s) = alive s" "subscriptionsDisposed (enter s) = subscriptionsDisposed s"
  by (simp_all add: enter_def getSize_def)

lemma nth_without:
  "j < length xs - 1 \<Longrightarrow> (take i xs @ drop (Suc i) xs) ! j = (if j < i then xs ! j else xs ! Suc j)"
  by (auto simp: nth_append min_def)

lemma nth_removed_after:
  "i < k \<Longrightarrow> k < length xs \<Longrightarrow> (take i xs @ drop (Suc i) xs) ! (k - 1) = xs ! k"
  by (auto simp: nth_append min_def)

lemma nth_removed_at:
  "Suc i < length xs \<Longrightarrow> (take i xs @ drop (Suc i) xs) ! i = xs ! Suc i"
  by (simp add: nth_append min_def)

lemma nth_removed_before:
  "j < i \<Longrightarrow> i < length xs \<Longrightarrow> (take i xs @ drop (Suc i) xs) ! j = xs ! j"
  by (simp add: nth_append min_def)

lemma js_index_kept:
  assumes "0 \<le> i" and "i < k" and "k < int (length xs)"
  shows "js_index (take (nat i) xs @ drop (Suc (nat i)) xs) (k - 1) = js_index xs k"
proof -
  have "nat i < nat k" "nat k < length xs" using assms by auto
  from nth_removed_after [OF this] have "(take (nat i) xs @ drop (Suc (nat i)) xs) ! (nat k - 1) = xs ! nat k" .
  moreover have "nat (k - 1) = nat k - 1" using assms by auto
  moreover have "int (length (take (nat i) xs @ drop (Suc (nat i)) xs)) = int (length xs) - 1"
    using assms by auto
  ultimately show ?thesis using assms by (simp add: js_index_def)
qed

lemma js_index_next:
  assumes "0 \<le> i" and "i < int (length xs) - 1"
  shows "js_index (take (nat i) xs @ drop (Suc (nat i)) xs) i = js_index xs (i + 1)"
proof -
  have "Suc (nat i) < length xs" using assms by auto
  from nth_removed_at [OF this] have "(take (nat i) xs @ drop (Suc (nat i)) xs) ! nat i = xs ! Suc (nat i)" .
  moreover have "nat (i + 1) = Suc (nat i)" using assms by auto
  moreover have "int (length (take (nat i) xs @ drop (Suc (nat i)) xs)) = int (length xs) - 1"
    using assms by auto
  ultimately show ?thesis using assms by (simp add: js_index_def)
qed

lemma js_index_new_last:
  assumes "0 \<le> i" and "i = int (length xs) - 1"
  shows "js_index (take (nat i) xs @ drop (Suc (nat i)) xs) (i - 1) = js_index xs (i - 1)"
proof (cases "i = 0")
  case True
  then show ?thesis by (simp add: js_index_def)
next
  case False
  with assms have "0 < i" "i < int (length xs)" by linarith+
  then have "nat (i - 1) < nat i" "nat i < length xs" by arith+
  from nth_removed_before [OF this] have "(take (nat i) xs @ drop (Suc (nat i)) xs) ! nat (i - 1) = xs ! nat (i - 1)" .
  moreover have "int (length (take (nat i) xs @ drop (Suc (nat i)) xs)) = int (length xs) - 1"
    using assms by auto
  ultimately show ?thesis using assms False by (simp add: js_index_def)
qed

section \<open>Calls made inside a transaction\<close>

lemma unbatched_refl [simp]: "unbatched s s"
  by (simp add: unbatched_def)






lemma didAddEntry_observing:
  "observing ls \<Longrightarrow> \<not> emitterDisposed s \<Longrightarrow>
   didAddEntry (emitter_emit (Suc n) ls) entry index s =
     Returned (s\<lparr>currentTransactionChangedEntries := True, emitting := False,
                log := log s @ [Emitted (DidAddEntry entry index)]\<rparr>)"
  unfolding didAddEntry_def by (simp add: emit_observing del: emitter_emit.simps)














section \<open>The loop of \<open>destroyEntries\<close>\<close>

lemma indexOf_head: "entries s = x # xs \<Longrightarrow> indexOf s x = 0"
  by (simp add: indexOf_def)

lemma enter_not_emitting: "\<not> emitting s \<Longrightarrow> enter s = s\<lparr>transactionDepth := transactionDepth s + 1\<rparr>"
  by (simp add: enter_def)

lemma remove_head_nested:
  assumes "observing ls" and "\<not> emitterDisposed s" and "1 \<le> transactionDepth s"
    and "\<not> emitting s" and "entries s = x # xs"
  shows "remove (emitter_emit (Suc n) ls) x s =
     Returned (s\<lparr> entries := xs,
        selectedIndex :=
          (if xs = [] then - 1
           else if 0 < selectedIndex s then max 0 (selectedIndex s - 1)
           else min (selectedIndex s) (int (length xs) - 1)),
        currentTransactionChangedEntries := True,
        log := log s @ [Emitted (DidRemoveEntry (Some x) 0)] \<rparr>)"
proof -
  define D where "D = emitter_emit (Suc n) ls"
  have sz: "getSize (enter s) = int (length xs) + 1"
    using assms(5) by (simp add: getSize_def)
  define s2 where "s2 = (enter s)\<lparr> entries := xs,
        selectedIndex :=
          (if xs = [] then - 1
           else if 0 < selectedIndex s then max 0 (selectedIndex s - 1)
           else min (selectedIndex s) (int (length xs) - 1)),
        currentTransactionChangedEntries := True, emitting := False,
        log := log (enter s) @ [Emitted (DidRemoveEntry (Some x) 0)] \<rparr>"
  have fn: "removeAt_fn D 0 (enter s) = Returned s2"
    using removeAt_fn_in_range [of ls "enter s" 0 n] assms(1,2,5) sz
    by (simp add: D_def s2_def)
  have d: "transactionDepth s2 \<noteq> 1"
    using assms(3) by (simp add: s2_def)
  have "removeAt D 0 s = Returned (s2\<lparr>transactionDepth := transactionDepth s2 - 1\<rparr>)"
    unfolding removeAt_def
    using fn d by (intro transact_nested [where fn = "removeAt_fn D 0" and s = s]) simp_all
  moreover have "s2\<lparr>transactionDepth := transactionDepth s2 - 1\<rparr> =
     s\<lparr> entries := xs,
        selectedIndex :=
          (if xs = [] then - 1
           else if 0 < selectedIndex s then max 0 (selectedIndex s - 1)
           else min (selectedIndex s) (int (length xs) - 1)),
        currentTransactionChangedEntries := True,
        log := log s @ [Emitted (DidRemoveEntry (Some x) 0)] \<rparr>"
    using assms(4) by (simp add: s2_def enter_not_emitting)
  ultimately show ?thesis
    using indexOf_head [OF assms(5)] by (simp add: remove_def D_def del: emitter_emit.simps)
qed


lemma destroy_one:
  assumes "observing ls" and "\<not> emitterDisposed s" and "1 \<le> transactionDepth s"
    and "\<not> emitting s" and "entries s = x # xs"
  shows "(if \<not> includesEntry s x then Threw (Error ''Entry not in set'') s
          else andThen (destroyEntry hasDestroy x s) (remove (emitter_emit (Suc n) ls) x)) =
     Returned (s\<lparr> entries := xs,
        selectedIndex :=
          (if xs = [] then - 1
           else if 0 < selectedIndex s then max 0 (selectedIndex s - 1)
           else min (selectedIndex s) (int (length xs) - 1)),
        currentTransactionChangedEntries := True,
        log := log s @ destroy_trace hasDestroy x \<rparr>)"
proof -
  define s1 where "s1 = (if hasDestroy x then s\<lparr>log := log s @ [EntryDestroyCalled x]\<rparr> else s)"
  have f: "\<not> emitterDisposed s1" "1 \<le> transactionDepth s1" "\<not> emitting s1" "entries s1 = x # xs"
    "selectedIndex s1 = selectedIndex s"
    using assms(2-5) by (simp_all add: s1_def)
  have "remove (emitter_emit (Suc n) ls) x s1 =
     Returned (s1\<lparr> entries := xs,
        selectedIndex :=
          (if xs = [] then - 1
           else if 0 < selectedIndex s1 then max 0 (selectedIndex s1 - 1)
           else min (selectedIndex s1) (int (length xs) - 1)),
        currentTransactionChangedEntries := True,
        log := log s1 @ [Emitted (DidRemoveEntry (Some x) 0)] \<rparr>)"
    by (rule remove_head_nested [OF assms(1) f(1-4)])
  moreover have "s1\<lparr> entries := xs,
        selectedIndex :=
          (if xs = [] then - 1
           else if 0 < selectedIndex s1 then max 0 (selectedIndex s1 - 1)
           else min (selectedIndex s1) (int (length xs) - 1)),
        currentTransactionChangedEntries := True,
        log := log s1 @ [Emitted (DidRemoveEntry (Some x) 0)] \<rparr> =
     s\<lparr> entries := xs,
        selectedIndex :=
          (if xs = [] then - 1
           else if 0 < selectedIndex s then max 0 (selectedIndex s - 1)
           else min (selectedIndex s) (int (length xs) - 1)),
        currentTransactionChangedEntries := True,
        log := log s @ destroy_trace hasDestroy x \<rparr>"
    unfolding f(5) by (simp add: s1_def destroy_trace_def)
  ultimately show ?thesis
    using assms(5)
    by (simp add: includesEntry_def destroyEntry_def andThen_def s1_def del: emitter_emit.simps)
qed

lemma forEach_destroy:
  assumes "observing ls"
  shows "\<not> emitterDisposed s \<Longrightarrow> 1 \<le> transactionDepth s \<Longrightarrow> \<not> emitting s \<Longrightarrow> entries s = xs \<Longrightarrow>
     \<exists>s'. forEach (\<lambda>entry s'.
               if \<not> includesEntry s' entry then Threw (Error ''Entry not in set'') s'
               else andThen (destroyEntry hasDestroy entry s') (remove (emitter_emit (Suc n) ls) entry))
             xs s = Returned s'
        \<and> entries s' = []
        \<and> (xs \<noteq> [] \<longrightarrow> selectedIndex s' = - 1)
        \<and> transactionDepth s' = transactionDepth s
        \<and> \<not> emitterDisposed s' \<and> \<not> emitting s'
        \<and> currentTransactionChangedEntries s' = (currentTransactionChangedEntries s \<or> xs \<noteq> [])
        \<and> alive s' = alive s \<and> subscriptionsDisposed s' = subscriptionsDisposed s
        \<and> log s' = log s @ concat (map (destroy_trace hasDestroy) xs)"
proof (induction xs arbitrary: s)
  case Nil
  then show ?case by simp
next
  case (Cons x xs)
  define s1 where "s1 = s\<lparr> entries := xs,
        selectedIndex :=
          (if xs = [] then - 1
           else if 0 < selectedIndex s then max 0 (selectedIndex s - 1)
           else min (selectedIndex s) (int (length xs) - 1)),
        currentTransactionChangedEntries := True,
        log := log s @ destroy_trace hasDestroy x \<rparr>"
  have one: "(if \<not> includesEntry s x then Threw (Error ''Entry not in set'') s
          else andThen (destroyEntry hasDestroy x s) (remove (emitter_emit (Suc n) ls) x)) = Returned s1"
    unfolding s1_def by (rule destroy_one [OF assms Cons.prems])
  have f: "\<not> emitterDisposed s1" "1 \<le> transactionDepth s1" "\<not> emitting s1" "entries s1 = xs"
    using Cons.prems by (simp_all add: s1_def)
  from Cons.IH [OF f] obtain s' where
    r: "forEach (\<lambda>entry s'.
               if \<not> includesEntry s' entry then Threw (Error ''Entry not in set'') s'
               else andThen (destroyEntry hasDestroy entry s') (remove (emitter_emit (Suc n) ls) entry))
             xs s1 = Returned s'"
    and p: "entries s' = []" "xs \<noteq> [] \<longrightarrow> selectedIndex s' = - 1"
      "transactionDepth s' = transactionDepth s1"
      "\<not> emitterDisposed s'" "\<not> emitting s'"
      "currentTransactionChangedEntries s' = (currentTransactionChangedEntries s1 \<or> xs \<noteq> [])"
      "alive s' = alive s1" "subscriptionsDisposed s' = subscriptionsDisposed s1"
      "log s' = log s1 @ concat (map (destroy_trace hasDestroy) xs)"
    by blast
  have sel: "selectedIndex s' = - 1"
  proof (cases "xs = []")
    case True
    then have "s' = s1" using r by simp
    then show ?thesis using True by (simp add: s1_def)
  next
    case False
    then show ?thesis using p(2) by simp
  qed
  have "forEach (\<lambda>entry s'.
               if \<not> includesEntry s' entry then Threw (Error ''Entry not in set'') s'
               else andThen (destroyEntry hasDestroy entry s') (remove (emitter_emit (Suc n) ls) entry))
             (x # xs) s = Returned s'"
    using one r by (simp add: andThen_def del: emitter_emit.simps)
  then show ?case
    using p sel by (simp add: s1_def)
qed


lemma js_index_Nil [simp]: "js_index [] i = None"
  by (simp add: js_index_def)

lemma removals_in_destroy_trace:
  "length (filter is_removal (concat (map (destroy_trace hasDestroy) xs))) = length xs"
  by (induction xs) (simp_all add: destroy_trace_def)

lemma no_batched_in_destroy_trace:
  "filter is_batched (concat (map (destroy_trace hasDestroy) xs)) = []"
  by (induction xs) (simp_all add: destroy_trace_def)

section \<open>Range checks, and calls that change nothing\<close>

text \<open>
  What holds of the mutators whatever the listeners do: \<open>removeAt\<close> on a valid index
  removes the entry and moves the selection before it hands the event to the emitter;
  \<open>selectAt\<close> throws outside \<open>0 .. size - 1\<close> unless the index is the selected one;
  \<open>addAt\<close> throws above \<open>size\<close> and on a duplicate; \<open>select\<close> of an absent entry
  throws before any transaction starts. The throws inside \<open>transact\<close> leave the object
  as \<open>transact\<close> handed it to its function, one transaction deeper. On a set of one
  entry whose selected index is 0, \<open>selectNext\<close> and \<open>selectPrevious\<close> change nothing.
\<close>

lemma removeAt_fn_any_dispatch:
  assumes "0 \<le> index" and "index < getSize s"
  shows "removeAt_fn E index s =
     didRemoveEntry E (Some (entries s ! nat index)) index
       (s\<lparr> entries := take (nat index) (entries s) @ drop (Suc (nat index)) (entries s),
           selectedIndex :=
             (if getSize s - 1 = 0 then - 1
              else if index < selectedIndex s then max 0 (selectedIndex s - 1)
              else min (selectedIndex s) (getSize s - 1 - 1)) \<rparr>)"
proof -
  have i: "js_index (entries s) index = Some (entries s ! nat index)"
    using assms by (simp add: js_index_def getSize_def)
  have d: "splice_delete1 (entries s) index = take (nat index) (entries s) @ drop (Suc (nat index)) (entries s)"
    using assms by (simp add: splice_delete1_in_range getSize_def)
  have l: "int (length (take (nat index) (entries s) @ drop (Suc (nat index)) (entries s))) = getSize s - 1"
    using length_splice_delete1_in_range [of index "entries s"] assms by (simp add: d getSize_def)
  show ?thesis
    unfolding removeAt_fn_def Let_def i d
    using l by (simp add: getSize_def)
qed

lemma selectAt_out_of_range_throws:
  assumes "index \<noteq> selectedIndex s" and "index < 0 \<or> getSize s \<le> index"
  shows "selectAt D index s = Threw (Error ''Invalid selection index'') (enter s)"
  unfolding selectAt_def
  using assms
  by (intro transact_Threw [where fn = "selectAt_fn index" and s = s]) (auto simp: selectAt_fn_def)

lemma selectAt_selected_index_returns:
  assumes "observing ls" and "\<not> emitterDisposed s" and "\<not> emitting s"
    and "\<not> currentTransactionChangedEntries s"
  shows "selectAt (emitter_emit (Suc n) ls) (selectedIndex s) s = Returned s"
proof (cases "transactionDepth s = 0")
  case True
  have "selectAt (emitter_emit (Suc n) ls) (selectedIndex s) s = Returned ((enter s)\<lparr> transactionDepth := 0, currentTransactionChangedEntries := False,
        emitting := (emitting (enter s) \<and> \<not> currentTransactionChangedEntries (enter s)
                      \<and> getSelectedEntry (enter s) = getSelectedEntry s),
        log := log (enter s)
          @ (if currentTransactionChangedEntries (enter s) then [Emitted (DidChangeEntries (entries (enter s)))] else [])
          @ (if getSelectedEntry (enter s) \<noteq> getSelectedEntry s
             then [Emitted (DidChangeSelectedEntry (getSelectedEntry (enter s)))] else []) \<rparr>)"
    unfolding selectAt_def using assms True
    by (intro transact_top [where fn = "selectAt_fn (selectedIndex s)" and s = s])
      (simp_all add: selectAt_fn_def)
  then show ?thesis using assms True
    by (simp add: enter_def getSelectedEntry_def del: emitter_emit.simps)
next
  case False
  have "selectAt (emitter_emit (Suc n) ls) (selectedIndex s) s =
      Returned ((enter s)\<lparr>transactionDepth := transactionDepth (enter s) - 1\<rparr>)"
    unfolding selectAt_def using False
    by (intro transact_nested [where fn = "selectAt_fn (selectedIndex s)" and s = s])
      (simp_all add: selectAt_fn_def)
  then show ?thesis using assms by (simp add: enter_def del: emitter_emit.simps)
qed

lemma addAt_beyond_size_throws:
  assumes "getSize s < index"
  shows "addAt D entry index s = Threw AssertionError (enter s)"
  unfolding addAt_def
  using assms
  by (intro transact_Threw [where fn = "addAt_fn D entry index" and s = s]) (auto simp: addAt_fn_def)

lemma addAt_duplicate_throws:
  assumes "includesEntry s entry"
  shows "addAt D entry index s = Threw AssertionError (enter s)"
  unfolding addAt_def
  using assms
  by (intro transact_Threw [where fn = "addAt_fn D entry index" and s = s])
    (auto simp: addAt_fn_def includesEntry_def)

lemma select_absent_throws:
  "\<not> includesEntry s entry \<Longrightarrow> select D entry s = Threw (Error ''Entry not in set'') s"
  by (simp add: select_def indexOf_def includesEntry_def)

lemma selectNext_selected_singleton:
  assumes "observing ls" and "\<not> emitterDisposed s" and "\<not> emitting s"
    and "\<not> currentTransactionChangedEntries s"
    and "length (entries s) = 1" and "selectedIndex s = 0"
  shows "selectNext (emitter_emit (Suc n) ls) s = Returned s"
    and "selectPrevious (emitter_emit (Suc n) ls) s = Returned s"
proof -
  have "js_rem (selectedIndex s + 1) (getSize s) = selectedIndex s"
    "js_rem (selectedIndex s - 1 + getSize s) (getSize s) = selectedIndex s"
    using assms(5,6) by (simp_all add: js_rem_def getSize_def)
  then show "selectNext (emitter_emit (Suc n) ls) s = Returned s"
    and "selectPrevious (emitter_emit (Suc n) ls) s = Returned s"
    using selectAt_selected_index_returns [OF assms(1-4), of n] assms(5)
    by (simp_all add: selectNext_def selectPrevious_def Let_def getSize_def del: emitter_emit.simps)
qed

section \<open>The constructor, and adding to an empty set\<close>

text \<open>
  Every constructed set has \<open>alive\<close> undefined and so reports itself destroyed. The
  constructor rejects -1 on a non-empty list and every index from the length upwards,
  and accepts every index below -1. Adding to a set that is empty, with \<open>selectedIndex\<close>
  -1, leaves \<open>selectedIndex\<close> at -1 whatever the entry.
\<close>

lemma constructed_set_is_not_alive:
  "constructor opts = Inr s \<Longrightarrow> isAlive s = None \<and> isDestroyed s"
  by (auto simp: constructor_def Let_def isAlive_def isDestroyed_def truthy_def
      split: option.splits if_splits)

lemma constructor_below_minus_one:
  assumes "opt_selectedIndex opts = Some i" and "i < - 1"
  shows "\<exists>s. constructor opts = Inr s \<and> selectedIndex s = i \<and> getSelectedEntry s = None"
  using assms
  by (simp add: constructor_def Let_def getSelectedEntry_def js_index_def)

lemma constructor_rejects_minus_one_when_not_empty:
  assumes "opt_selectedIndex opts = Some (- 1)" and "opt_entries opts = Some es" and "es \<noteq> []"
  shows "constructor opts = Inl (Error ''Initial selection required'')"
  using assms by (simp add: constructor_def Let_def)

lemma constructor_rejects_index_beyond_last:
  assumes "opt_selectedIndex opts = Some i" and "opt_entries opts = Some es"
    and "int (length es) \<le> i"
  shows "constructor opts = Inl (Error ''Invalid selected entry index'')"
  using assms by (auto simp: constructor_def Let_def)

lemma constructor_default_selection:
  assumes "opt_selectedIndex opts = None"
  shows "\<exists>s. constructor opts = Inr s
     \<and> selectedIndex s = (if entries s = [] then - 1 else 0)"
  using assms by (simp add: constructor_def Let_def)

lemma add_to_empty_set_selects_nothing:
  assumes "observing ls" and "\<not> emitterDisposed s" and "entries s = []" and "selectedIndex s = - 1"
  shows "\<exists>s'. add (emitter_emit (Suc n) ls) e s = Returned s'
     \<and> entries s' = [e] \<and> selectedIndex s' = - 1"
proof -
  define D where "D = emitter_emit (Suc n) ls"
  define s2 where "s2 = (enter s)\<lparr> entries := [e], currentTransactionChangedEntries := True,
      emitting := False, log := log (enter s) @ [Emitted (DidAddEntry e 0)] \<rparr>"
  have fn: "addAt_fn D e 0 (enter s) = Returned s2"
    using assms
    by (simp add: addAt_fn_def includesEntry_def getSize_def splice_insert_def splice_start_def
        Let_def didAddEntry_observing D_def s2_def del: emitter_emit.simps)
  have f2: "entries s2 = [e]" "selectedIndex s2 = - 1" "\<not> emitterDisposed s2"
    using assms by (simp_all add: s2_def)
  show ?thesis
  proof (cases "transactionDepth s = 0")
    case True
    have "addAt D e 0 s = Returned (s2\<lparr> transactionDepth := 0,
        currentTransactionChangedEntries := False,
        emitting := (emitting s2 \<and> \<not> currentTransactionChangedEntries s2
                      \<and> getSelectedEntry s2 = getSelectedEntry s),
        log := log s2
          @ (if currentTransactionChangedEntries s2 then [Emitted (DidChangeEntries (entries s2))] else [])
          @ (if getSelectedEntry s2 \<noteq> getSelectedEntry s
             then [Emitted (DidChangeSelectedEntry (getSelectedEntry s2))] else []) \<rparr>)"
      unfolding addAt_def D_def
      using assms(1) fn [unfolded D_def] True f2(3)
      by (intro transact_top [where fn = "addAt_fn (emitter_emit (Suc n) ls) e 0" and s = s])
        (simp_all add: s2_def)
    then show ?thesis
      using f2 assms(3) by (simp add: add_def getSize_def D_def del: emitter_emit.simps)
  next
    case False
    have "addAt D e 0 s = Returned (s2\<lparr>transactionDepth := transactionDepth s2 - 1\<rparr>)"
      unfolding addAt_def
      using fn False
      by (intro transact_nested [where fn = "addAt_fn D e 0" and s = s]) (simp_all add: s2_def)
    then show ?thesis
      using f2 assms(3) by (simp add: add_def getSize_def D_def del: emitter_emit.simps)
  qed
qed

section \<open>The properties, claim by claim\<close>

text \<open>The concrete sets are what the constructor returns.\<close>

lemma constructor_noOptions: "constructor noOptions = Inr newSet"
  by (simp add: constructor_def noOptions_def newSet_def)

lemma constructor_abcOptions:
  "0 \<le> i \<Longrightarrow> i < 3 \<Longrightarrow> constructor (abcOptions i) = Inr (abcSet i)"
  by (simp add: constructor_def abcOptions_def abcSet_def newSet_def)

text \<open>
  C1 (selection invariant: the set is empty exactly when \<open>selectedIndex\<close> is -1, and a
  non-empty set has a selected index between 0 and size - 1). The code at
  \<open>new SelectionOrderedSet()\<close> followed by \<open>add('a')\<close>: \<open>addAt\<close> inserts at index 0 and
  increments \<open>selectedIndex\<close> only when \<open>index <= selectedIndex\<close>, which \<open>0 <= -1\<close> is
  not. The set then holds one entry while \<open>selectedIndex\<close> is still -1 and no entry is
  selected.
\<close>

theorem add_to_new_set_selects_nothing:
  "constructor noOptions = Inr newSet
   \<and> add quiet ''a'' newSet =
       Returned (newSet\<lparr> entries := [''a''],
                  log := [Emitted (DidAddEntry ''a'' 0), Emitted (DidChangeEntries [''a''])] \<rparr>)
   \<and> getSize (newSet\<lparr> entries := [''a''],
                  log := [Emitted (DidAddEntry ''a'' 0), Emitted (DidChangeEntries [''a''])] \<rparr>) = 1
   \<and> getSelectedIndex (newSet\<lparr> entries := [''a''],
                  log := [Emitted (DidAddEntry ''a'' 0), Emitted (DidChangeEntries [''a''])] \<rparr>) = - 1
   \<and> getSelectedEntry (newSet\<lparr> entries := [''a''],
                  log := [Emitted (DidAddEntry ''a'' 0), Emitted (DidChangeEntries [''a''])] \<rparr>) = None"
  by code_simp





text \<open>
  C3 (\<open>removeAt\<close> on a valid index). With listeners that only observe, for every set
  and every index with \<open>0 <= index < size\<close>, \<open>removeAt(index)\<close> returns; the entry at
  the index is gone and the others keep their order; the selected index becomes -1 when
  the set is now empty, else \<open>max(0, selectedIndex - 1)\<close> when \<open>index < selectedIndex\<close>,
  else \<open>min(selectedIndex, size - 1)\<close>. The first effect of the call (after the
  warning, when a dispatch is running) is \<open>did-remove-entry\<close> with the removed entry
  and its index at removal; the deferred events follow only when the call is the
  outermost transaction. When the removed entry was before a valid selection the same
  entry stays selected; when it was the selected entry, the selection falls on its
  successor, or on the new last entry.
\<close>

theorem removeAt_rebalances_selection:
  assumes "observing ls" and "\<not> emitterDisposed s" and "0 \<le> index" and "index < getSize s"
  shows "\<exists>s'. removeAt (emitter_emit (Suc n) ls) index s = Returned s'
     \<and> entries s' = take (nat index) (entries s) @ drop (Suc (nat index)) (entries s)
     \<and> getSize s' = getSize s - 1
     \<and> selectedIndex s' =
         (if getSize s' = 0 then - 1
          else if index < selectedIndex s then max 0 (selectedIndex s - 1)
          else min (selectedIndex s) (getSize s' - 1))
     \<and> log s' = log (enter s) @ Emitted (DidRemoveEntry (Some (entries s ! nat index)) index)
          # (if transactionDepth s = 0
             then Emitted (DidChangeEntries (entries s'))
                  # (if getSelectedEntry s' \<noteq> getSelectedEntry s
                     then [Emitted (DidChangeSelectedEntry (getSelectedEntry s'))] else [])
             else [])
     \<and> (index < selectedIndex s \<and> selectedIndex s < getSize s
          \<longrightarrow> getSelectedEntry s' = getSelectedEntry s)
     \<and> (index = selectedIndex s
          \<longrightarrow> getSelectedEntry s' =
              (if index < getSize s' then js_index (entries s) (index + 1)
               else js_index (entries s) (index - 1)))"
proof -
  define D where "D = emitter_emit (Suc n) ls"
  define xs where "xs = take (nat index) (entries s) @ drop (Suc (nat index)) (entries s)"
  define k where "k = (if getSize s - 1 = 0 then - 1
           else if index < selectedIndex s then max 0 (selectedIndex s - 1)
           else min (selectedIndex s) (getSize s - 1 - 1))"
  define ev where "ev = Emitted (DidRemoveEntry (Some (entries s ! nat index)) index)"
  define s2 where "s2 = (enter s)\<lparr> entries := xs, selectedIndex := k,
        currentTransactionChangedEntries := True, emitting := False,
        log := log (enter s) @ [ev] \<rparr>"
  have fn: "removeAt_fn D index (enter s) = Returned s2"
    using removeAt_fn_in_range [of ls "enter s" index n] assms
    by (simp add: D_def s2_def xs_def k_def ev_def)
  have len: "int (length xs) = getSize s - 1"
    using assms(3,4) by (simp add: getSize_def xs_def)
  have sel_before: "index < selectedIndex s \<and> selectedIndex s < getSize s
      \<longrightarrow> js_index xs k = getSelectedEntry s"
  proof (intro impI, elim conjE)
    assume a: "index < selectedIndex s" "selectedIndex s < getSize s"
    then have "k = selectedIndex s - 1"
      using assms(3) by (simp add: k_def)
    then show "js_index xs k = getSelectedEntry s"
      using js_index_kept [of index "selectedIndex s" "entries s"] a assms(3)
      by (simp add: xs_def getSelectedEntry_def getSize_def)
  qed
  have sel_at: "index = selectedIndex s
      \<longrightarrow> js_index xs k =
              (if index < getSize s - 1 then js_index (entries s) (index + 1)
               else js_index (entries s) (index - 1))"
  proof (intro impI)
    assume a: "index = selectedIndex s"
    show "js_index xs k =
              (if index < getSize s - 1 then js_index (entries s) (index + 1)
               else js_index (entries s) (index - 1))"
    proof (cases "index < getSize s - 1")
      case True
      then have "k = index" using assms(3) a by (simp add: k_def)
      then show ?thesis
        using js_index_next [of index "entries s"] True assms(3)
        by (simp add: xs_def getSize_def)
    next
      case False
      then have last: "index = getSize s - 1" using assms(4) by simp
      show ?thesis
      proof (cases "index = 0")
        case True
        then have "k = - 1" using last by (simp add: k_def)
        then show ?thesis using True last by (simp add: js_index_def)
      next
        case nz: False
        then have "k = index - 1" using last a by (simp add: k_def)
        then show ?thesis
          using js_index_new_last [of index "entries s"] last assms(3)
          by (simp add: xs_def getSize_def)
      qed
    qed
  qed
  have s2_fields: "entries s2 = xs" "selectedIndex s2 = k" "transactionDepth s2 = transactionDepth s + 1"
    "currentTransactionChangedEntries s2" "\<not> emitterDisposed s2" "log s2 = log (enter s) @ [ev]"
    "getSelectedEntry s2 = js_index xs k"
    using assms(2) by (simp_all add: s2_def getSelectedEntry_def)
  define top where "top = s2\<lparr> transactionDepth := 0,
        currentTransactionChangedEntries := False,
        emitting := (emitting s2 \<and> \<not> currentTransactionChangedEntries s2
                      \<and> getSelectedEntry s2 = getSelectedEntry s),
        log := log s2
          @ (if currentTransactionChangedEntries s2 then [Emitted (DidChangeEntries (entries s2))] else [])
          @ (if getSelectedEntry s2 \<noteq> getSelectedEntry s
             then [Emitted (DidChangeSelectedEntry (getSelectedEntry s2))] else []) \<rparr>"
  define s' where "s' = (if transactionDepth s = 0 then top
                         else s2\<lparr>transactionDepth := transactionDepth s2 - 1\<rparr>)"
  have r: "removeAt D index s = Returned s'"
  proof (cases "transactionDepth s = 0")
    case True
    have "removeAt D index s = Returned top"
      unfolding removeAt_def D_def top_def
      using assms(1) True s2_fields(3,5) fn [unfolded D_def]
      by (intro transact_top [where fn = "removeAt_fn (emitter_emit (Suc n) ls) index" and s = s]) simp_all
    then show ?thesis using True by (simp add: s'_def)
  next
    case False
    have "removeAt D index s = Returned (s2\<lparr>transactionDepth := transactionDepth s2 - 1\<rparr>)"
      unfolding removeAt_def
      using False s2_fields(3) fn
      by (intro transact_nested [where fn = "removeAt_fn D index" and s = s]) simp_all
    then show ?thesis using False by (simp add: s'_def)
  qed
  have e': "entries s' = xs" and k': "selectedIndex s' = k"
    using s2_fields(1,2) by (simp_all add: s'_def top_def)
  have l': "log s' = log (enter s) @ ev
          # (if transactionDepth s = 0
             then Emitted (DidChangeEntries xs)
                  # (if js_index xs k \<noteq> getSelectedEntry s
                     then [Emitted (DidChangeSelectedEntry (js_index xs k))] else [])
             else [])"
    using s2_fields by (simp add: s'_def top_def)
  have g': "getSelectedEntry s' = js_index xs k" "getSize s' = getSize s - 1"
    using e' k' len by (simp_all add: getSelectedEntry_def getSize_def)
  show ?thesis
    unfolding D_def [symmetric]
    apply (rule exI [of _ s'])
    apply (intro conjI)
    subgoal by (rule r)
    subgoal using e' by (simp add: xs_def)
    subgoal by (rule g'(2))
    subgoal unfolding k' g'(2) k_def by simp
    subgoal unfolding l' e' g'(1) ev_def by simp
    subgoal unfolding g'(1) by (rule sel_before)
    subgoal unfolding g' by (rule sel_at)
    done
qed

theorem removeAt_rebalances_selection_witness:
  "observing [onlooker] \<and> \<not> emitterDisposed (abcSet 1) \<and> 0 \<le> (1::int)
   \<and> 1 < getSize (abcSet 1)
   \<and> (\<exists>s'. removeAt (emitter_emit (Suc 0) [onlooker]) 1 (abcSet 1) = Returned s'
        \<and> entries s' = [''a'', ''c'']
        \<and> selectedIndex s' = 1
        \<and> getSelectedEntry s' = Some ''c''
        \<and> log s' = [Emitted (DidRemoveEntry (Some ''b'') 1),
                     Emitted (DidChangeEntries [''a'', ''c'']),
                     Emitted (DidChangeSelectedEntry (Some ''c''))])"
proof -
  have h: "observing [onlooker]" "\<not> emitterDisposed (abcSet 1)" "0 \<le> (1::int)"
    "1 < getSize (abcSet 1)"
    by (simp_all add: observing_def onlooker_def abcSet_def newSet_def getSize_def)
  from removeAt_rebalances_selection [OF h, of 0] obtain s' where
    r: "removeAt (emitter_emit (Suc 0) [onlooker]) 1 (abcSet 1) = Returned s'"
    and e: "entries s' = take (nat 1) (entries (abcSet 1)) @ drop (Suc (nat 1)) (entries (abcSet 1))"
    and g: "getSize s' = getSize (abcSet 1) - 1"
    and k: "selectedIndex s' =
         (if getSize s' = 0 then - 1
          else if 1 < selectedIndex (abcSet 1) then max 0 (selectedIndex (abcSet 1) - 1)
          else min (selectedIndex (abcSet 1)) (getSize s' - 1))"
    and l: "log s' = log (enter (abcSet 1)) @ Emitted (DidRemoveEntry (Some (entries (abcSet 1) ! nat 1)) 1)
          # (if transactionDepth (abcSet 1) = 0
             then Emitted (DidChangeEntries (entries s'))
                  # (if getSelectedEntry s' \<noteq> getSelectedEntry (abcSet 1)
                     then [Emitted (DidChangeSelectedEntry (getSelectedEntry s'))] else [])
             else [])"
    by blast
  have e': "entries s' = [''a'', ''c'']"
    using e by (simp add: abcSet_def newSet_def)
  have g2: "getSize s' = 2"
    using g by (simp add: abcSet_def newSet_def getSize_def)
  have k': "selectedIndex s' = 1"
    using k unfolding g2 by (simp add: abcSet_def newSet_def)
  have g': "getSelectedEntry s' = Some ''c''"
    by (simp add: getSelectedEntry_def e' k' js_index_def)
  have l': "log s' = [Emitted (DidRemoveEntry (Some ''b'') 1),
                     Emitted (DidChangeEntries [''a'', ''c'']),
                     Emitted (DidChangeSelectedEntry (Some ''c''))]"
    using l unfolding g' e'
    by (simp add: abcSet_def newSet_def enter_def getSelectedEntry_def js_index_def)
  show ?thesis using h r e' k' g' l' by blast
qed

text \<open>
  C4 (every index outside the documented range fails the call). The code on the set
  \<open>['a', 'b', 'c']\<close> with index 1 selected: \<open>removeAt\<close> has no range check, so
  \<open>removeAt(5)\<close> returns, removes nothing and emits \<open>did-remove-entry\<close> with an
  \<open>undefined\<close> entry, and \<open>removeAt(-1)\<close> returns after \<open>splice(-1, 1)\<close> removed the
  last entry; \<open>addAt\<close> checks only \<open>index <= size\<close>, so \<open>addAt('d', -1)\<close> returns after
  \<open>splice(-1, 0, 'd')\<close> inserted before the last entry. \<open>selectAt\<close>, which does check
  both bounds, throws at 5 and at -2.
\<close>

theorem out_of_range_removeAt_and_addAt_return:
  "constructor (abcOptions 1) = Inr (abcSet 1)
   \<and> removeAt quiet 5 (abcSet 1) =
     Returned ((abcSet 1)\<lparr> log := [Emitted (DidRemoveEntry None 5),
                                   Emitted (DidChangeEntries [''a'', ''b'', ''c''])] \<rparr>)
   \<and> removeAt quiet (- 1) (abcSet 1) =
     Returned ((abcSet 1)\<lparr> entries := [''a'', ''b''], selectedIndex := 0,
                 log := [Emitted (DidRemoveEntry None (- 1)),
                         Emitted (DidChangeEntries [''a'', ''b'']),
                         Emitted (DidChangeSelectedEntry (Some ''a''))] \<rparr>)
   \<and> addAt quiet ''d'' (- 1) (abcSet 1) =
     Returned ((abcSet 1)\<lparr> entries := [''a'', ''b'', ''d'', ''c''], selectedIndex := 2,
                 log := [Emitted (DidAddEntry ''d'' (- 1)),
                         Emitted (DidChangeEntries [''a'', ''b'', ''d'', ''c'']),
                         Emitted (DidChangeSelectedEntry (Some ''d''))] \<rparr>)
   \<and> selectAt quiet 5 (abcSet 1) =
     Threw (Error ''Invalid selection index'') ((abcSet 1)\<lparr> transactionDepth := 1 \<rparr>)
   \<and> selectAt quiet (- 2) (abcSet 1) =
     Threw (Error ''Invalid selection index'') ((abcSet 1)\<lparr> transactionDepth := 1 \<rparr>)"
  by code_simp

text \<open>
  C5 (a failed mutation leaves the set as it was, and later mutations still emit their
  batched events). The code on the set \<open>['a', 'b', 'c']\<close>: \<open>transact\<close> increments
  \<open>transactionDepth\<close> before it runs its function and decrements it after, with no
  \<open>finally\<close>, so the \<open>throw\<close> of \<open>selectAt(5)\<close> or of \<open>addAt('a', 0)\<close> leaves the depth
  at 1. The next \<open>add('d')\<close> succeeds and emits \<open>did-add-entry\<close>, but its transaction
  ends at depth 1, not 0: no \<open>did-change-entries\<close> is emitted and the changed flag stays
  set.
\<close>

theorem failed_call_leaves_transaction_open:
  "constructor (abcOptions 1) = Inr (abcSet 1)
   \<and> selectAt quiet 5 (abcSet 1) =
     Threw (Error ''Invalid selection index'') ((abcSet 1)\<lparr> transactionDepth := 1 \<rparr>)
   \<and> addAt quiet ''a'' 0 (abcSet 1) =
     Threw AssertionError ((abcSet 1)\<lparr> transactionDepth := 1 \<rparr>)
   \<and> addAt quiet ''d'' 7 (abcSet 1) =
     Threw AssertionError ((abcSet 1)\<lparr> transactionDepth := 1 \<rparr>)
   \<and> select quiet ''z'' (abcSet 1) = Threw (Error ''Entry not in set'') (abcSet 1)
   \<and> add quiet ''d'' ((abcSet 1)\<lparr> transactionDepth := 1 \<rparr>) =
     Returned ((abcSet 1)\<lparr> entries := [''a'', ''b'', ''c'', ''d''], transactionDepth := 1,
                 currentTransactionChangedEntries := True,
                 log := [Emitted (DidAddEntry ''d'' 3)] \<rparr>)"
  by code_simp

text \<open>
  C6 (events of \<open>destroy\<close>). As stated the claim fails on the empty set:
  \<open>destroy()\<close> on \<open>new SelectionOrderedSet()\<close> changes neither the entries nor the
  selected entry, so \<open>transact\<close> emits neither \<open>did-change-entries\<close> nor
  \<open>did-change-selected-entry\<close>; the only event is \<open>did-destroy\<close>.
\<close>

theorem destroy_of_empty_set_emits_no_batched_event:
  "constructor noOptions = Inr newSet
   \<and> destroy quiet plainEntry newSet =
     Returned (newSet\<lparr> alive := Some False, subscriptionsDisposed := True,
                emitterDisposed := True, log := [Emitted DidDestroy] \<rparr>)
   \<and> length (filter is_batched
        (log (newSet\<lparr> alive := Some False, subscriptionsDisposed := True,
                emitterDisposed := True, log := [Emitted DidDestroy] \<rparr>))) = 0"
  by code_simp

text \<open>
  C6, amended. With listeners that only observe, \<open>destroy()\<close> called outside any
  transaction or dispatch, on a set of N entries whose selection is valid when N is not
  0, returns with the set empty and dead, and its effects are, in this order: for each
  entry, front to back, the call of the entry's own \<open>destroy\<close> (when it has one)
  followed by \<open>did-remove-entry\<close> for that entry, N removals in all and no deferred
  event among them; then, when N is not 0, exactly one \<open>did-change-entries\<close> with the
  empty snapshot and one \<open>did-change-selected-entry\<close> with no entry, and when N is 0
  neither; then \<open>did-destroy\<close> once.
\<close>

theorem destroy_emits_removals_then_one_batch:
  assumes "observing ls" and "transactionDepth s = 0" and "\<not> emitting s"
    and "\<not> emitterDisposed s" and "\<not> currentTransactionChangedEntries s"
    and "entries s \<noteq> [] \<Longrightarrow> 0 \<le> selectedIndex s \<and> selectedIndex s < getSize s"
  shows "\<exists>s'. destroy (emitter_emit (Suc n) ls) hasDestroy s = Returned s'
     \<and> entries s' = [] \<and> getSelectedEntry s' = None
     \<and> isAlive s' = Some False \<and> isDestroyed s'
     \<and> log s' = log s @ concat (map (destroy_trace hasDestroy) (entries s))
          @ (if entries s = [] then []
             else [Emitted (DidChangeEntries []), Emitted (DidChangeSelectedEntry None)])
          @ [Emitted DidDestroy]
     \<and> length (filter is_removal (concat (map (destroy_trace hasDestroy) (entries s))))
          = length (entries s)
     \<and> filter is_batched (concat (map (destroy_trace hasDestroy) (entries s))) = []"
proof -
  define D where "D = emitter_emit (Suc n) ls"
  define s0 where "s0 = s\<lparr>subscriptionsDisposed := True\<rparr>"
  define tr where "tr = concat (map (destroy_trace hasDestroy) (entries s))"
  have e0: "\<not> emitterDisposed (enter s0)" "1 \<le> transactionDepth (enter s0)"
    "\<not> emitting (enter s0)" "entries (enter s0) = entries s"
    using assms(2-4) by (simp_all add: s0_def enter_def)
  from forEach_destroy [OF assms(1) e0, of hasDestroy n] obtain s2 where
    fe: "forEach (\<lambda>entry s'.
               if \<not> includesEntry s' entry then Threw (Error ''Entry not in set'') s'
               else andThen (destroyEntry hasDestroy entry s') (remove (emitter_emit (Suc n) ls) entry))
             (entries s) (enter s0) = Returned s2"
    and p: "entries s2 = []" "transactionDepth s2 = transactionDepth (enter s0)"
      "\<not> emitterDisposed s2" "\<not> emitting s2"
      "currentTransactionChangedEntries s2 = (currentTransactionChangedEntries (enter s0) \<or> entries s \<noteq> [])"
      "alive s2 = alive (enter s0)"
      "log s2 = log (enter s0) @ tr"
    unfolding tr_def by blast
  have fn: "destroyEntries_fn D hasDestroy (enter s0) = Returned s2"
    using fe e0(4) by (simp add: destroyEntries_fn_def getEntries_def D_def del: emitter_emit.simps)
  have d2: "transactionDepth s2 = 1" and c2: "currentTransactionChangedEntries s2 = (entries s \<noteq> [])"
    and l2: "log s2 = log s @ tr"
    using p(2,5,7) assms(2,3,5) by (simp_all add: s0_def enter_def)
  have g2: "getSelectedEntry s2 = None"
    by (simp add: getSelectedEntry_def p(1))
  have g0: "(getSelectedEntry s0 = None) = (entries s = [])"
  proof (cases "entries s = []")
    case True
    then show ?thesis by (simp add: getSelectedEntry_def s0_def)
  next
    case False
    with assms(6) show ?thesis by (simp add: getSelectedEntry_def s0_def js_index_def getSize_def)
  qed
  define s3 where "s3 = s2\<lparr> transactionDepth := 0, currentTransactionChangedEntries := False,
        emitting := (emitting s2 \<and> \<not> currentTransactionChangedEntries s2
                      \<and> getSelectedEntry s2 = getSelectedEntry s0),
        log := log s2
          @ (if currentTransactionChangedEntries s2 then [Emitted (DidChangeEntries (entries s2))] else [])
          @ (if getSelectedEntry s2 \<noteq> getSelectedEntry s0
             then [Emitted (DidChangeSelectedEntry (getSelectedEntry s2))] else []) \<rparr>"
  have de: "destroyEntries D hasDestroy s0 = Returned s3"
    unfolding destroyEntries_def s3_def D_def
    using assms(1) fn [unfolded D_def] d2 p(3)
    by (intro transact_top [where fn = "destroyEntries_fn (emitter_emit (Suc n) ls) hasDestroy" and s = s0])
      simp_all
  have l3: "log s3 = log s @ tr
          @ (if entries s = [] then []
             else [Emitted (DidChangeEntries []), Emitted (DidChangeSelectedEntry None)])"
    using g0 unfolding s3_def g2 c2 l2 p(1) by auto
  have f3: "\<not> emitterDisposed s3" "entries s3 = []"
    using p(1,3) by (simp_all add: s3_def)
  define s' where "s' = s3\<lparr> alive := Some False, emitting := False,
      log := log s3 @ [Emitted DidDestroy], emitterDisposed := True \<rparr>"
  have dd: "didDestroy D (s3\<lparr>alive := Some False\<rparr>) =
      Returned (s3\<lparr> alive := Some False, emitting := False, log := log s3 @ [Emitted DidDestroy] \<rparr>)"
    unfolding didDestroy_def D_def
    using emit_observing [OF assms(1), of "s3\<lparr>alive := Some False\<rparr>" n DidDestroy] f3(1)
    by simp
  have r: "destroy D hasDestroy s = Returned s'"
    using de dd by (simp add: destroy_def andThen_def s0_def s'_def)
  have f': "entries s' = []" "getSelectedEntry s' = None" "isAlive s' = Some False" "isDestroyed s'"
    using f3(2) by (simp_all add: s'_def getSelectedEntry_def isAlive_def isDestroyed_def truthy_def)
  have l': "log s' = log s @ tr
          @ (if entries s = [] then []
             else [Emitted (DidChangeEntries []), Emitted (DidChangeSelectedEntry None)])
          @ [Emitted DidDestroy]"
    using l3 by (simp add: s'_def)
  show ?thesis
    using r f' l' removals_in_destroy_trace [of hasDestroy "entries s"]
      no_batched_in_destroy_trace [of hasDestroy "entries s"]
    unfolding D_def tr_def by blast
qed

theorem destroy_emits_removals_then_one_batch_witness:
  "observing [onlooker] \<and> transactionDepth (abcSet 1) = 0 \<and> \<not> emitting (abcSet 1)
   \<and> \<not> emitterDisposed (abcSet 1) \<and> \<not> currentTransactionChangedEntries (abcSet 1)
   \<and> entries (abcSet 1) \<noteq> []
   \<and> 0 \<le> selectedIndex (abcSet 1) \<and> selectedIndex (abcSet 1) < getSize (abcSet 1)
   \<and> (\<exists>s'. destroy (emitter_emit (Suc 0) [onlooker]) destroysB (abcSet 1) = Returned s'
        \<and> entries s' = [] \<and> isAlive s' = Some False
        \<and> log s' = [Emitted (DidRemoveEntry (Some ''a'') 0),
                     EntryDestroyCalled ''b'', Emitted (DidRemoveEntry (Some ''b'') 0),
                     Emitted (DidRemoveEntry (Some ''c'') 0),
                     Emitted (DidChangeEntries []), Emitted (DidChangeSelectedEntry None),
                     Emitted DidDestroy])"
proof -
  have h: "observing [onlooker]" "transactionDepth (abcSet 1) = 0" "\<not> emitting (abcSet 1)"
    "\<not> emitterDisposed (abcSet 1)" "\<not> currentTransactionChangedEntries (abcSet 1)"
    by (simp_all add: observing_def onlooker_def abcSet_def newSet_def)
  have v: "entries (abcSet 1) \<noteq> []" "0 \<le> selectedIndex (abcSet 1)"
    "selectedIndex (abcSet 1) < getSize (abcSet 1)"
    by (simp_all add: abcSet_def newSet_def getSize_def)
  from destroy_emits_removals_then_one_batch [OF h, of 0 destroysB] v obtain s' where
    r: "destroy (emitter_emit (Suc 0) [onlooker]) destroysB (abcSet 1) = Returned s'"
    and e: "entries s' = []" and a: "isAlive s' = Some False"
    and l: "log s' = log (abcSet 1) @ concat (map (destroy_trace destroysB) (entries (abcSet 1)))
          @ (if entries (abcSet 1) = [] then []
             else [Emitted (DidChangeEntries []), Emitted (DidChangeSelectedEntry None)])
          @ [Emitted DidDestroy]"
    by blast
  have l': "log s' = [Emitted (DidRemoveEntry (Some ''a'') 0),
                     EntryDestroyCalled ''b'', Emitted (DidRemoveEntry (Some ''b'') 0),
                     Emitted (DidRemoveEntry (Some ''c'') 0),
                     Emitted (DidChangeEntries []), Emitted (DidChangeSelectedEntry None),
                     Emitted DidDestroy]"
    using l by (simp add: abcSet_def newSet_def destroy_trace_def destroysB_def)
  show ?thesis using h v r e a l' by blast
qed

text \<open>
  C7 (\<open>isAlive\<close> is true and \<open>isDestroyed\<close> false from construction until \<open>destroy\<close>).
  The constructor never assigns \<open>alive\<close>; only \<open>destroy\<close> does, to \<open>false\<close>. On
  \<open>new SelectionOrderedSet()\<close>, \<open>isAlive()\<close> returns \<open>undefined\<close> and \<open>isDestroyed()\<close>
  returns \<open>true\<close>; after \<open>destroy()\<close> they return \<open>false\<close> and \<open>true\<close>.
\<close>

theorem new_set_reports_destroyed:
  "constructor noOptions = Inr newSet
   \<and> isAlive newSet = None
   \<and> isDestroyed newSet = True
   \<and> destroy quiet plainEntry newSet =
       Returned (newSet\<lparr> alive := Some False, subscriptionsDisposed := True,
                  emitterDisposed := True, log := [Emitted DidDestroy] \<rparr>)
   \<and> isAlive (newSet\<lparr> alive := Some False, subscriptionsDisposed := True,
                  emitterDisposed := True, log := [Emitted DidDestroy] \<rparr>) = Some False
   \<and> isDestroyed (newSet\<lparr> alive := Some False, subscriptionsDisposed := True,
                  emitterDisposed := True, log := [Emitted DidDestroy] \<rparr>) = True"
  by code_simp

text \<open>
  C8 (construction fails on every invalid initial selection). The constructor rejects
  \<open>selectedIndex === -1\<close> on a non-empty list and \<open>selectedIndex >= entries.length\<close>; it
  has no test for an index below -1. \<open>new SelectionOrderedSet({entries: ['a'],
  selectedIndex: -2})\<close> returns a set whose selected index is -2 and whose selected entry
  is \<open>undefined\<close>. The rejected inputs and the defaults are as the claim says.
\<close>

theorem constructor_accepts_index_below_minus_one:
  "constructor \<lparr> opt_entries = Some [''a''], opt_selectedIndex = Some (- 2) \<rparr> =
     Inr (newSet\<lparr> entries := [''a''], selectedIndex := - 2 \<rparr>)
   \<and> getSelectedEntry (newSet\<lparr> entries := [''a''], selectedIndex := - 2 \<rparr>) = None
   \<and> constructor \<lparr> opt_entries = Some [''a''], opt_selectedIndex = Some (- 1) \<rparr> =
     Inl (Error ''Initial selection required'')
   \<and> constructor \<lparr> opt_entries = Some [''a''], opt_selectedIndex = Some 1 \<rparr> =
     Inl (Error ''Invalid selected entry index'')
   \<and> constructor \<lparr> opt_entries = Some [''a''], opt_selectedIndex = None \<rparr> =
     Inr (newSet\<lparr> entries := [''a''], selectedIndex := 0 \<rparr>)
   \<and> constructor \<lparr> opt_entries = Some [], opt_selectedIndex = None \<rparr> = Inr newSet"
  by code_simp

text \<open>
  C9 (every mutation made while a listener runs is preceded by a warning). \<open>emit\<close> sets
  \<open>emitting\<close> to \<open>true\<close>, dispatches, and sets it to \<open>false\<close>; it does not restore the
  value it found. With the listener \<open>addsTwo\<close> subscribed, \<open>add('a')\<close> on a new set
  dispatches \<open>did-add-entry\<close>; the listener's \<open>add('b')\<close> warns, and its own nested
  dispatch clears \<open>emitting\<close>; the listener's \<open>add('c')\<close>, still inside the outer
  dispatch, finds \<open>emitting\<close> false and proceeds without a warning. Both entries are
  added; the trace holds one warning.
\<close>

theorem second_reentrant_mutation_not_warned:
  "add (emitter_emit 3 [addsTwo]) ''a'' newSet =
     Returned (newSet\<lparr> entries := [''a'', ''b'', ''c''],
                log := [Emitted (DidAddEntry ''a'' 0),
                        Warned, Emitted (DidAddEntry ''b'' 1),
                        Emitted (DidAddEntry ''c'' 2),
                        Emitted (DidChangeEntries [''a'', ''b'', ''c''])] \<rparr>)
   \<and> count_list [Emitted (DidAddEntry ''a'' 0),
                  Warned, Emitted (DidAddEntry ''b'' 1),
                  Emitted (DidAddEntry ''c'' 2),
                  Emitted (DidChangeEntries [''a'', ''b'', ''c''])] Warned = 1"
  by code_simp

text \<open>
  C10 (on a set of one entry \<open>selectNext\<close> and \<open>selectPrevious\<close> change nothing and emit
  nothing). The set reached by \<open>new SelectionOrderedSet()\<close> and \<open>add('a')\<close> has one
  entry and \<open>selectedIndex\<close> -1 (see C1). There \<open>selectNext\<close> computes
  \<open>(-1 + 1) % 1 = 0\<close> and \<open>selectPrevious\<close> computes \<open>(-1 - 1 + 1) % 1 = 0\<close>, which is
  not the current index: \<open>selectAt(0)\<close> sets \<open>selectedIndex\<close> to 0 and the transaction
  emits \<open>did-change-selected-entry\<close>.
\<close>

theorem selectNext_on_unselected_singleton_emits:
  "add quiet ''a'' newSet =
     Returned (newSet\<lparr> entries := [''a''],
                log := [Emitted (DidAddEntry ''a'' 0), Emitted (DidChangeEntries [''a''])] \<rparr>)
   \<and> selectNext quiet (newSet\<lparr> entries := [''a''],
                log := [Emitted (DidAddEntry ''a'' 0), Emitted (DidChangeEntries [''a''])] \<rparr>) =
     Returned (newSet\<lparr> entries := [''a''], selectedIndex := 0,
                log := [Emitted (DidAddEntry ''a'' 0), Emitted (DidChangeEntries [''a'']),
                        Emitted (DidChangeSelectedEntry (Some ''a''))] \<rparr>)
   \<and> selectPrevious quiet (newSet\<lparr> entries := [''a''],
                log := [Emitted (DidAddEntry ''a'' 0), Emitted (DidChangeEntries [''a''])] \<rparr>) =
     Returned (newSet\<lparr> entries := [''a''], selectedIndex := 0,
                log := [Emitted (DidAddEntry ''a'' 0), Emitted (DidChangeEntries [''a'']),
                        Emitted (DidChangeSelectedEntry (Some ''a''))] \<rparr>)"
  by code_simp

end
